theory Spec2Isabelle
  imports Main
begin

section \<open>Components, stages, exceptions\<close>

text \<open>
  What a hook of a component throws: an object whose type derives from
  \<^verbatim>\<open>std::exception\<close> (identified by its \<^verbatim>\<open>what()\<close> text), or an object of any other
  type. The \<^verbatim>\<open>catch (const std::exception&)\<close> clauses of the cell only match the first.
\<close>

datatype thrown = StdException string | NonStdThrown

datatype hook_behaviour = HookReturns | HookThrows thrown

text \<open>
  \<^verbatim>\<open>ComponentBase\<close>: an object with an identity and three virtual hooks. The hooks are
  supplied by the component factory; the cell only calls them, so a component is
  described by what each hook does when it is called.
\<close>

record ComponentBase =
  component_id :: nat
  hookOnLoadingCancelled :: hook_behaviour
  hookOnAllComponentsLoaded :: hook_behaviour
  hookOnAllComponentsAreStopping :: hook_behaviour

text \<open>
  Modelled from the spec: the declaration of \<^verbatim>\<open>enum class ComponentLifetimeStage\<close> is in a
  header that is not part of the sources; only \<^verbatim>\<open>kCreated\<close> is named by the code. The
  stages are the five of the specification, in its order
  Unborn, Constructed (\<^verbatim>\<open>kCreated\<close>), Running, NotifiedPeersStopping, Torn-down.
\<close>

datatype ComponentLifetimeStage =
  Unborn | kCreated | Running | NotifiedPeersStopping | TornDown

fun stage_rank :: "ComponentLifetimeStage \<Rightarrow> nat" where
  "stage_rank Unborn = 0"
| "stage_rank kCreated = 1"
| "stage_rank Running = 2"
| "stage_rank NotifiedPeersStopping = 3"
| "stage_rank TornDown = 4"

text \<open>
  The exceptions that leave the cell's member functions: the two cancellation
  exceptions, the \<^verbatim>\<open>std::runtime_error\<close> built by \<^verbatim>\<open>OnAllComponentsLoaded\<close>, and whatever a
  hook threw when no handler of the cell caught it.
\<close>

datatype exn =
  ComponentsLoadCancelledException
| StageSwitchingCancelledException string
| RuntimeError string
| Propagated thrown

text \<open>
  What the cell does to the outside, in order: the hooks it calls, the component it
  destroys, the error lines it logs and the broadcasts on its condition variable.
\<close>

datatype event =
  CallOnLoadingCancelled ComponentBase
| CallOnAllComponentsLoaded ComponentBase
| CallOnAllComponentsAreStopping ComponentBase
| DestroyComponent ComponentBase
| LogError string
| NotifyAll

section \<open>The cell\<close>

text \<open>
  \<^verbatim>\<open>ComponentInfo\<close>. The member \<^verbatim>\<open>x_\<close> of the class is the field \<open>m_x\<close> of the record
  (an identifier cannot end with an underscore here). \<open>m_component\<close> is the
  \<^verbatim>\<open>std::unique_ptr<ComponentBase>\<close> (\<open>None\<close> is the
  null pointer), \<open>m_on_loading_cancelled_called\<close> the \<^verbatim>\<open>std::atomic<bool>\<close>. Every block
  under \<^verbatim>\<open>std::lock_guard\<close> is one atomic update of the record. \<open>events\<close> is a history
  variable: the cell's effects on the outside so far.
\<close>

record ComponentInfo =
  m_name :: string
  m_component :: "ComponentBase option"
  m_stage :: ComponentLifetimeStage
  m_stage_switching_cancelled :: bool
  m_on_loading_cancelled_called :: bool
  m_it_depends_on :: "string set"
  m_depends_on_it :: "string set"
  events :: "event list"

text \<open>
  Modelled from the spec: the member initialisers are in the missing header; a cell is
  created empty, unborn, not cancelled, with no edges.
\<close>

definition new_ComponentInfo :: "string \<Rightarrow> ComponentInfo" where
  "new_ComponentInfo name =
     \<lparr>m_name = name, m_component = None, m_stage = Unborn,
      m_stage_switching_cancelled = False, m_on_loading_cancelled_called = False,
      m_it_depends_on = {}, m_depends_on_it = {}, events = []\<rparr>"

definition emit :: "event \<Rightarrow> ComponentInfo \<Rightarrow> ComponentInfo" where
  "emit e s = s\<lparr>events := events s @ [e]\<rparr>"

definition HasComponent :: "ComponentInfo \<Rightarrow> bool" where
  "HasComponent s = (m_component s \<noteq> None)"

definition GetComponent :: "ComponentInfo \<Rightarrow> ComponentBase option" where
  "GetComponent s = m_component s"

definition GetStage :: "ComponentInfo \<Rightarrow> ComponentLifetimeStage" where
  "GetStage s = m_stage s"

definition ExtractComponent :: "ComponentInfo \<Rightarrow> ComponentBase option \<times> ComponentInfo" where
  "ExtractComponent s = (m_component s, s\<lparr>m_component := None\<rparr>)"

text \<open>
  The hooks are reached through \<^verbatim>\<open>component_->\<close> after \<^verbatim>\<open>HasComponent()\<close> has been seen to
  hold. Within one call, with no other thread in between, the pointer is then not null:
  the \<open>None\<close> branches of the three functions below are never taken. Between threads
  they can be; \<open>step\<close> below has that case.
\<close>

definition OnLoadingCancelled :: "ComponentInfo \<Rightarrow> (exn + unit) \<times> ComponentInfo" where
  "OnLoadingCancelled s =
     (if \<not> HasComponent s then (Inr (), s)
      else if m_on_loading_cancelled_called s then (Inr (), s)
      else
        (let s1 = s\<lparr>m_on_loading_cancelled_called := True\<rparr> in
         case m_component s1 of
           None \<Rightarrow> (Inr (), s1)
         | Some c \<Rightarrow>
             (case hookOnLoadingCancelled c of
                HookReturns \<Rightarrow> (Inr (), emit (CallOnLoadingCancelled c) s1)
              | HookThrows t \<Rightarrow> (Inl (Propagated t), emit (CallOnLoadingCancelled c) s1))))"

text \<open>
  \<^verbatim>\<open>component_ = std::move(component)\<close> is the move assignment of a \<^verbatim>\<open>unique_ptr\<close>: an
  instance held before is destroyed by it.
\<close>

definition SetComponent ::
  "ComponentBase option \<Rightarrow> ComponentInfo \<Rightarrow> (exn + unit) \<times> ComponentInfo" where
  "SetComponent component s =
     (let s0 = (case m_component s of None \<Rightarrow> s | Some old \<Rightarrow> emit (DestroyComponent old) s);
          s1 = s0\<lparr>m_component := component, m_stage := kCreated\<rparr>;
          call_on_loading_cancelled = m_stage_switching_cancelled s1
      in
        if call_on_loading_cancelled then
          (case OnLoadingCancelled s1 of
             (Inl e, s2) \<Rightarrow> (Inl e, s2)
           | (Inr u, s2) \<Rightarrow> (Inr (), emit NotifyAll s2))
        else (Inr (), emit NotifyAll s1))"

definition ClearComponent :: "ComponentInfo \<Rightarrow> ComponentInfo" where
  "ClearComponent s =
     (if \<not> HasComponent s then s
      else
        (case ExtractComponent s of
           (None, s1) \<Rightarrow> s1
         | (Some c, s1) \<Rightarrow> emit (DestroyComponent c) s1))"

definition AddItDependsOn :: "string \<Rightarrow> ComponentInfo \<Rightarrow> ComponentInfo" where
  "AddItDependsOn component s = s\<lparr>m_it_depends_on := insert component (m_it_depends_on s)\<rparr>"

definition AddDependsOnIt :: "string \<Rightarrow> ComponentInfo \<Rightarrow> ComponentInfo" where
  "AddDependsOnIt component s = s\<lparr>m_depends_on_it := insert component (m_depends_on_it s)\<rparr>"

definition CheckItDependsOn :: "string \<Rightarrow> ComponentInfo \<Rightarrow> bool" where
  "CheckItDependsOn component s = (component \<in> m_it_depends_on s)"

definition CheckDependsOnIt :: "string \<Rightarrow> ComponentInfo \<Rightarrow> bool" where
  "CheckDependsOnIt component s = (component \<in> m_depends_on_it s)"

definition SetStageSwitchingCancelled :: "bool \<Rightarrow> ComponentInfo \<Rightarrow> ComponentInfo" where
  "SetStageSwitchingCancelled cancelled s =
     emit NotifyAll (s\<lparr>m_stage_switching_cancelled := cancelled\<rparr>)"

definition OnAllComponentsLoaded :: "ComponentInfo \<Rightarrow> (exn + unit) \<times> ComponentInfo" where
  "OnAllComponentsLoaded s =
     (if \<not> HasComponent s then (Inr (), s)
      else
        (case m_component s of
           None \<Rightarrow> (Inr (), s)
         | Some c \<Rightarrow>
             (let s1 = emit (CallOnAllComponentsLoaded c) s in
              case hookOnAllComponentsLoaded c of
                HookReturns \<Rightarrow> (Inr (), s1)
              | HookThrows (StdException what) \<Rightarrow>
                  (let message = ''OnAllComponentsLoaded() failed for component '' @
                                 m_name s @ '': '' @ what
                   in (Inl (RuntimeError message), emit (LogError message) s1))
              | HookThrows NonStdThrown \<Rightarrow> (Inl (Propagated NonStdThrown), s1))))"

definition OnAllComponentsAreStopping :: "ComponentInfo \<Rightarrow> (exn + unit) \<times> ComponentInfo" where
  "OnAllComponentsAreStopping s =
     (if \<not> HasComponent s then (Inr (), s)
      else
        (case m_component s of
           None \<Rightarrow> (Inr (), s)
         | Some c \<Rightarrow>
             (let s1 = emit (CallOnAllComponentsAreStopping c) s in
              case hookOnAllComponentsAreStopping c of
                HookReturns \<Rightarrow> (Inr (), s1)
              | HookThrows (StdException what) \<Rightarrow>
                  (Inr (), emit (LogError (''OnAllComponentsAreStopping() failed for component '' @
                                           m_name s @ '': '' @ what)) s1)
              | HookThrows NonStdThrown \<Rightarrow> (Inl (Propagated NonStdThrown), s1))))"

definition SetStage :: "ComponentLifetimeStage \<Rightarrow> ComponentInfo \<Rightarrow> ComponentInfo" where
  "SetStage stage s = emit NotifyAll (s\<lparr>m_stage := stage\<rparr>)"

section \<open>The blocking operations\<close>

text \<open>
  A waiter sleeps on the condition variable between its looks at the cell. A wake-up
  shows it the cell as the other threads left it, and is either a notification or the
  interruption of the waiting coroutine.
\<close>

datatype wakeup = Notified ComponentInfo | Interrupted ComponentInfo

text \<open>
  Modelled from the spec: \<^verbatim>\<open>engine::ConditionVariable::Wait(lock, predicate)\<close> is not part
  of the sources. It is a wait on a predicate that is checked before sleeping and again
  after every wake-up; it returns the value of the predicate, which is false only when
  the wait was interrupted. \<open>None\<close>: the wake-ups are used up and the caller still sleeps.
\<close>

fun cv_Wait ::
  "(ComponentInfo \<Rightarrow> bool) \<Rightarrow> wakeup list \<Rightarrow> ComponentInfo \<Rightarrow> (bool \<times> ComponentInfo) option" where
  "cv_Wait predicate [] s = (if predicate s then Some (True, s) else None)"
| "cv_Wait predicate (w # ws) s =
     (if predicate s then Some (True, s)
      else
        (case w of
           Notified s' \<Rightarrow> cv_Wait predicate ws s'
         | Interrupted s' \<Rightarrow> Some (predicate s', s')))"

datatype 'a outcome = Returns 'a | Throws exn | Blocks

definition WaitAndGetComponent :: "wakeup list \<Rightarrow> ComponentInfo \<Rightarrow> ComponentBase option outcome" where
  "WaitAndGetComponent ws s =
     (case cv_Wait (\<lambda>c. m_stage_switching_cancelled c \<or> m_component c \<noteq> None) ws s of
        None \<Rightarrow> Blocks
      | Some (ok, s') \<Rightarrow>
          if \<not> ok \<or> m_stage_switching_cancelled s' then Throws ComponentsLoadCancelledException
          else Returns (m_component s'))"

definition WaitStage ::
  "ComponentLifetimeStage \<Rightarrow> string \<Rightarrow> wakeup list \<Rightarrow> ComponentInfo \<Rightarrow> unit outcome" where
  "WaitStage stage method_name ws s =
     (case cv_Wait (\<lambda>c. m_stage_switching_cancelled c \<or> m_stage c = stage) ws s of
        None \<Rightarrow> Blocks
      | Some (ok, s') \<Rightarrow>
          if \<not> ok \<and> m_stage_switching_cancelled s'
          then Throws (StageSwitchingCancelledException (method_name @ '' cancelled''))
          else Returns ())"

section \<open>Sequences of calls\<close>

text \<open>
  The non-blocking member functions as calls on one cell, each with what it gives back.
  An exception does not undo what the call did to the cell before it was thrown.
\<close>

datatype op =
  OpSetComponent "ComponentBase option"
| OpClearComponent
| OpGetComponent
| OpAddItDependsOn string
| OpAddDependsOnIt string
| OpCheckItDependsOn string
| OpCheckDependsOnIt string
| OpSetStageSwitchingCancelled bool
| OpOnLoadingCancelled
| OpOnAllComponentsLoaded
| OpOnAllComponentsAreStopping
| OpSetStage ComponentLifetimeStage
| OpGetStage
| OpHasComponent
| OpExtractComponent

datatype result =
  Done
| Raised exn
| Pointer "ComponentBase option"
| Owned "ComponentBase option"
| Flag bool
| StageIs ComponentLifetimeStage

definition finished :: "(exn + unit) \<times> ComponentInfo \<Rightarrow> result \<times> ComponentInfo" where
  "finished r = (case r of (Inl e, s) \<Rightarrow> (Raised e, s) | (Inr u, s) \<Rightarrow> (Done, s))"

fun call :: "op \<Rightarrow> ComponentInfo \<Rightarrow> result \<times> ComponentInfo" where
  "call (OpSetComponent c) s = finished (SetComponent c s)"
| "call OpClearComponent s = (Done, ClearComponent s)"
| "call OpGetComponent s = (Pointer (GetComponent s), s)"
| "call (OpAddItDependsOn n) s = (Done, AddItDependsOn n s)"
| "call (OpAddDependsOnIt n) s = (Done, AddDependsOnIt n s)"
| "call (OpCheckItDependsOn n) s = (Flag (CheckItDependsOn n s), s)"
| "call (OpCheckDependsOnIt n) s = (Flag (CheckDependsOnIt n s), s)"
| "call (OpSetStageSwitchingCancelled b) s = (Done, SetStageSwitchingCancelled b s)"
| "call OpOnLoadingCancelled s = finished (OnLoadingCancelled s)"
| "call OpOnAllComponentsLoaded s = finished (OnAllComponentsLoaded s)"
| "call OpOnAllComponentsAreStopping s = finished (OnAllComponentsAreStopping s)"
| "call (OpSetStage st) s = (Done, SetStage st s)"
| "call OpGetStage s = (StageIs (GetStage s), s)"
| "call OpHasComponent s = (Flag (HasComponent s), s)"
| "call OpExtractComponent s = (case ExtractComponent s of (c, s') \<Rightarrow> (Owned c, s'))"

fun run :: "op list \<Rightarrow> ComponentInfo \<Rightarrow> result list \<times> ComponentInfo" where
  "run [] s = ([], s)"
| "run (c # cs) s =
     (case call c s of (r, s') \<Rightarrow> (case run cs s' of (rs, s'') \<Rightarrow> (r # rs, s'')))"

fun is_SetComponent :: "op \<Rightarrow> bool" where
  "is_SetComponent (OpSetComponent c) = True"
| "is_SetComponent other = False"

fun is_nonempty :: "result \<Rightarrow> bool" where
  "is_nonempty (Owned (Some c)) = True"
| "is_nonempty other = False"

fun is_cancellation_call :: "event \<Rightarrow> bool" where
  "is_cancellation_call (CallOnLoadingCancelled c) = True"
| "is_cancellation_call other = False"

definition cancellation_calls :: "ComponentInfo \<Rightarrow> nat" where
  "cancellation_calls s = length (filter is_cancellation_call (events s))"

text \<open>A component all of whose hooks return normally.\<close>

definition quiet_component :: "nat \<Rightarrow> ComponentBase" where
  "quiet_component i =
     \<lparr>component_id = i, hookOnLoadingCancelled = HookReturns,
      hookOnAllComponentsLoaded = HookReturns, hookOnAllComponentsAreStopping = HookReturns\<rparr>"

section \<open>Stage histories\<close>

text \<open>
  The stage a call asks for: \<^verbatim>\<open>SetStage(stage)\<close> asks for \<open>stage\<close>, \<^verbatim>\<open>SetComponent\<close> for
  \<^verbatim>\<open>kCreated\<close>; the other calls ask for none.
\<close>

fun requested :: "op \<Rightarrow> ComponentLifetimeStage option" where
  "requested (OpSetStage st) = Some st"
| "requested (OpSetComponent c) = Some kCreated"
| "requested other = None"

text \<open>What \<^verbatim>\<open>GetStage\<close> observes after each call of a sequence.\<close>

fun stages_seen :: "op list \<Rightarrow> ComponentInfo \<Rightarrow> ComponentLifetimeStage list" where
  "stages_seen [] s = []"
| "stages_seen (c # cs) s = GetStage (snd (call c s)) # stages_seen cs (snd (call c s))"

text \<open>
  One observation after another is in order when the stage is the same or the next one
  of the total order: it neither went back nor skipped a stage.
\<close>

definition forward :: "ComponentLifetimeStage \<Rightarrow> ComponentLifetimeStage \<Rightarrow> bool" where
  "forward a b = (stage_rank b = stage_rank a \<or> stage_rank b = Suc (stage_rank a))"

fun forward_only :: "ComponentLifetimeStage \<Rightarrow> ComponentLifetimeStage list \<Rightarrow> bool" where
  "forward_only a [] = True"
| "forward_only a (b # bs) = (forward a b \<and> forward_only b bs)"

fun requests_forward :: "ComponentLifetimeStage \<Rightarrow> op list \<Rightarrow> bool" where
  "requests_forward a [] = True"
| "requests_forward a (c # cs) =
     (case requested c of
        None \<Rightarrow> requests_forward a cs
      | Some b \<Rightarrow> forward a b \<and> requests_forward b cs)"

section \<open>Concurrent callers\<close>

text \<open>
  Several threads call into one cell. A call is a sequence of atomic steps: a block
  under the mutex, the \<^verbatim>\<open>exchange\<close> on the atomic flag, the call of a hook, the broadcast.
  A thread is where its call stands. \<^verbatim>\<open>OnLoadingCancelled\<close> is entered either by a caller of
  its own or by \<^verbatim>\<open>SetComponent\<close>, which still has to notify afterwards (the flag \<open>inline\<close>).
  Its last step reads \<^verbatim>\<open>component_\<close> without the mutex: when another thread has emptied
  the cell in between, it dereferences a null pointer.
\<close>

datatype thread =
  AtSetComponent "ComponentBase option"
| AtHasComponent bool
| AtExchange bool
| AtHookCall bool
| AtNotifyAll
| AtSetStageSwitchingCancelled bool
| AtSetStage ComponentLifetimeStage
| AtExtractComponent
| Returned
| Extracted "ComponentBase option"
| Threw exn
| NullDereference

definition after_hook :: "bool \<Rightarrow> thread" where
  "after_hook inline = (if inline then AtNotifyAll else Returned)"

fun step :: "thread \<Rightarrow> ComponentInfo \<Rightarrow> thread \<times> ComponentInfo" where
  "step (AtSetComponent component) s =
     (let s0 = (case m_component s of None \<Rightarrow> s | Some old \<Rightarrow> emit (DestroyComponent old) s);
          s1 = s0\<lparr>m_component := component, m_stage := kCreated\<rparr>
      in (if m_stage_switching_cancelled s1 then AtHasComponent True else AtNotifyAll, s1))"
| "step (AtHasComponent inline) s =
     (if \<not> HasComponent s then (after_hook inline, s) else (AtExchange inline, s))"
| "step (AtExchange inline) s =
     (if m_on_loading_cancelled_called s then (after_hook inline, s)
      else (AtHookCall inline, s\<lparr>m_on_loading_cancelled_called := True\<rparr>))"
| "step (AtHookCall inline) s =
     (case m_component s of
        None \<Rightarrow> (NullDereference, s)
      | Some c \<Rightarrow>
          (case hookOnLoadingCancelled c of
             HookReturns \<Rightarrow> (after_hook inline, emit (CallOnLoadingCancelled c) s)
           | HookThrows t \<Rightarrow> (Threw (Propagated t), emit (CallOnLoadingCancelled c) s)))"
| "step AtNotifyAll s = (Returned, emit NotifyAll s)"
| "step (AtSetStageSwitchingCancelled cancelled) s =
     (AtNotifyAll, s\<lparr>m_stage_switching_cancelled := cancelled\<rparr>)"
| "step (AtSetStage stage) s = (AtNotifyAll, s\<lparr>m_stage := stage\<rparr>)"
| "step AtExtractComponent s = (case ExtractComponent s of (c, s') \<Rightarrow> (Extracted c, s'))"
| "step Returned s = (Returned, s)"
| "step (Extracted c) s = (Extracted c, s)"
| "step (Threw e) s = (Threw e, s)"
| "step NullDereference s = (NullDereference, s)"

text \<open>
  An interleaving is the list of the threads' turns: each turn the named thread takes
  one step (a turn of a thread that does not exist is skipped).
\<close>

fun interleave :: "nat list \<Rightarrow> thread list \<times> ComponentInfo \<Rightarrow> thread list \<times> ComponentInfo" where
  "interleave [] cfg = cfg"
| "interleave (i # turns) (ts, s) =
     (if i < length ts
      then (case step (ts ! i) s of (t', s') \<Rightarrow> interleave turns (ts[i := t'], s'))
      else interleave turns (ts, s))"

text \<open>A thread at the entry of a call of the public interface.\<close>

fun entry :: "thread \<Rightarrow> bool" where
  "entry (AtSetComponent c) = True"
| "entry (AtHasComponent inline) = (\<not> inline)"
| "entry (AtSetStageSwitchingCancelled b) = True"
| "entry (AtSetStage st) = True"
| "entry AtExtractComponent = True"
| "entry other = False"

text \<open>A thread that has won the exchange and has not yet called the hook.\<close>

fun pending :: "thread \<Rightarrow> nat" where
  "pending (AtHookCall inline) = 1"
| "pending other = 0"

text \<open>How many calls of the hook the guard has paid for: one once it is set, none before.\<close>

definition guard_bound :: "ComponentInfo \<Rightarrow> nat" where
  "guard_bound s = (if m_on_loading_cancelled_called s then 1 else 0)"

text \<open>
  A thread that has come back from \<^verbatim>\<open>ExtractComponent\<close> with a component; a thread that
  is about to install one; whether the cell holds one.
\<close>

fun got :: "thread \<Rightarrow> nat" where
  "got (Extracted (Some c)) = 1"
| "got other = 0"

fun installs :: "thread \<Rightarrow> bool" where
  "installs (AtSetComponent c) = True"
| "installs other = False"

definition held :: "ComponentInfo \<Rightarrow> nat" where
  "held s = (if m_component s = None then 0 else 1)"


section \<open>Frame of extraction\<close>

text \<open>
  C10. \<^verbatim>\<open>ExtractComponent\<close> changes the held slot and nothing else: the stage, the
  cancellation flag, the guard of the cancellation hook, both edge sets (and the name
  and the history of effects) are the same after the call, whether a component was
  held or not; the slot itself is empty afterwards.
\<close>

theorem ExtractComponent_frame:
  "m_stage (snd (ExtractComponent s)) = m_stage s \<and>
   m_stage_switching_cancelled (snd (ExtractComponent s)) = m_stage_switching_cancelled s \<and>
   m_on_loading_cancelled_called (snd (ExtractComponent s)) = m_on_loading_cancelled_called s \<and>
   m_it_depends_on (snd (ExtractComponent s)) = m_it_depends_on s \<and>
   m_depends_on_it (snd (ExtractComponent s)) = m_depends_on_it s \<and>
   m_name (snd (ExtractComponent s)) = m_name s \<and>
   events (snd (ExtractComponent s)) = events s \<and>
   snd (ExtractComponent s) = s\<lparr>m_component := None\<rparr>"
  by (simp add: ExtractComponent_def)

section \<open>Runs of calls\<close>

lemma fst_run_Cons: "fst (run (c # cs) s) = fst (call c s) # fst (run cs (snd (call c s)))"
  by (simp add: case_prod_unfold)

lemma snd_run_Cons: "snd (run (c # cs) s) = snd (run cs (snd (call c s)))"
  by (simp add: case_prod_unfold)

lemma snd_finished: "snd (finished r) = snd r"
  by (simp add: finished_def split: prod.splits sum.splits)

lemma m_component_SetComponent: "m_component (snd (SetComponent c s)) = c"
  by (simp add: SetComponent_def OnLoadingCancelled_def HasComponent_def emit_def Let_def
      split: option.splits hook_behaviour.splits)

lemma ExtractComponent_empty: "m_component s = None \<Longrightarrow> ExtractComponent s = (None, s)"
  by (cases s) (simp add: ExtractComponent_def)

text \<open>Only \<^verbatim>\<open>SetComponent\<close> fills the slot: any other call leaves an empty cell empty.\<close>

lemma call_no_set_empty:
  "\<not> is_SetComponent c \<Longrightarrow> m_component s = None \<Longrightarrow>
   m_component (snd (call c s)) = None \<and> \<not> is_nonempty (fst (call c s))"
  by (cases c)
     (auto simp: finished_def OnLoadingCancelled_def OnAllComponentsLoaded_def
        OnAllComponentsAreStopping_def ClearComponent_def HasComponent_def emit_def
        AddItDependsOn_def AddDependsOnIt_def SetStageSwitchingCancelled_def SetStage_def
        ExtractComponent_def
        split: prod.splits sum.splits option.splits hook_behaviour.splits thrown.splits)

lemma run_no_set_empty:
  "\<forall>c \<in> set ops. \<not> is_SetComponent c \<Longrightarrow> m_component s = None \<Longrightarrow>
   m_component (snd (run ops s)) = None \<and> filter is_nonempty (fst (run ops s)) = []"
proof (induction ops arbitrary: s)
  case Nil
  then show ?case by simp
next
  case (Cons c cs)
  have a: "m_component (snd (call c s)) = None" "\<not> is_nonempty (fst (call c s))"
    using call_no_set_empty[of c s] Cons.prems by auto
  have "m_component (snd (run cs (snd (call c s)))) = None \<and>
        filter is_nonempty (fst (run cs (snd (call c s)))) = []"
    using Cons.IH[of "snd (call c s)"] Cons.prems a by simp
  then show ?case using a by (simp only: fst_run_Cons snd_run_Cons) simp
qed

lemma call_no_set_once:
  "\<not> is_SetComponent c \<Longrightarrow> is_nonempty (fst (call c s)) \<Longrightarrow> m_component (snd (call c s)) = None"
  by (cases c) (auto simp: finished_def ExtractComponent_def split: prod.splits sum.splits)

lemma run_no_set_once:
  "\<forall>c \<in> set ops. \<not> is_SetComponent c \<Longrightarrow> length (filter is_nonempty (fst (run ops s))) \<le> 1"
proof (induction ops arbitrary: s)
  case Nil
  then show ?case by simp
next
  case (Cons c cs)
  show ?case
  proof (cases "is_nonempty (fst (call c s))")
    case True
    then have "m_component (snd (call c s)) = None"
      using call_no_set_once Cons.prems by simp
    then have "filter is_nonempty (fst (run cs (snd (call c s)))) = []"
      using run_no_set_empty[of cs "snd (call c s)"] Cons.prems by simp
    then show ?thesis using True by (simp only: fst_run_Cons) simp
  next
    case False
    then show ?thesis using Cons.IH[of "snd (call c s)"] Cons.prems
      by (simp only: fst_run_Cons) simp
  qed
qed

lemma run_replicate_extract:
  "m_component s = None \<Longrightarrow>
   run (replicate n OpExtractComponent) s = (replicate n (Owned None), s)"
  by (induction n) (simp_all add: ExtractComponent_empty)

section \<open>Concurrent extraction\<close>

lemma sum_update:
  "i < length ts \<Longrightarrow>
   sum_list (map f (ts[i := t])) + f (ts ! i) = sum_list (map f ts) + (f t :: nat)"
proof (induction ts arbitrary: i)
  case Nil
  then show ?case by simp
next
  case (Cons a ts)
  then show ?case by (cases i) auto
qed

text \<open>
  A step of a thread that installs nothing never adds a component: what a caller of
  \<^verbatim>\<open>ExtractComponent\<close> comes back with, the cell has lost.
\<close>

lemma step_hands_over:
  "\<not> installs t \<Longrightarrow>
   got (fst (step t s)) + held (snd (step t s)) \<le> got t + held s \<and> \<not> installs (fst (step t s))"
  by (cases t)
     (auto simp: held_def after_hook_def emit_def ExtractComponent_def HasComponent_def
        split: option.splits hook_behaviour.splits)

lemma interleave_hands_over:
  "\<forall>t \<in> set ts. \<not> installs t \<Longrightarrow>
   sum_list (map got (fst (interleave turns (ts, s)))) + held (snd (interleave turns (ts, s))) \<le>
   sum_list (map got ts) + held s"
proof (induction turns arbitrary: ts s)
  case Nil
  then show ?case by simp
next
  case (Cons i turns)
  show ?case
  proof (cases "i < length ts")
    case False
    then show ?thesis using Cons by simp
  next
    case True
    obtain t' s' where st: "step (ts ! i) s = (t', s')" by (cases "step (ts ! i) s")
    have ni: "\<not> installs (ts ! i)" using Cons.prems True by simp
    have b: "got t' + held s' \<le> got (ts ! i) + held s" and n': "\<not> installs t'"
      using step_hands_over[OF ni, of s] st by simp_all
    have u: "sum_list (map got (ts[i := t'])) + got (ts ! i) = sum_list (map got ts) + got t'"
      using sum_update[OF True] .
    have all': "\<forall>t \<in> set (ts[i := t']). \<not> installs t"
      using Cons.prems n' set_update_subset_insert[of ts i t'] by auto
    have "sum_list (map got (fst (interleave turns (ts[i := t'], s')))) +
            held (snd (interleave turns (ts[i := t'], s'))) \<le>
          sum_list (map got (ts[i := t'])) + held s'"
      using Cons.IH[OF all'] .
    also have "\<dots> \<le> sum_list (map got ts) + held s"
      using b u by linarith
    finally show ?thesis using True st by simp
  qed
qed

lemma entry_not_got: "entry t \<Longrightarrow> got t = 0"
  by (cases t) simp_all

lemma entries_not_got: "\<forall>t \<in> set ts. entry t \<Longrightarrow> sum_list (map got ts) = 0"
  by (induction ts) (simp_all add: entry_not_got)

lemma concurrent_extract_once:
  assumes "\<forall>t \<in> set ts. entry t \<and> \<not> installs t"
  shows "sum_list (map got (fst (interleave turns (ts, s)))) \<le> 1"
proof -
  have z: "sum_list (map got ts) = 0"
    using entries_not_got[of ts] assms by blast
  have "sum_list (map got (fst (interleave turns (ts, s)))) + held (snd (interleave turns (ts, s))) \<le>
        sum_list (map got ts) + held s"
    using interleave_hands_over[of ts turns s] assms by blast
  then have "sum_list (map got (fst (interleave turns (ts, s)))) \<le> held s"
    unfolding z by simp
  also have "\<dots> \<le> 1" by (simp add: held_def)
  finally show ?thesis .
qed

section \<open>Extraction hands the component over once\<close>

text \<open>
  C5. On a cell that holds the component \<open>x\<close>, \<^verbatim>\<open>ExtractComponent\<close> returns \<open>x\<close> and leaves
  the cell empty. Whatever calls follow, as long as none of them is \<^verbatim>\<open>SetComponent\<close>,
  every later \<^verbatim>\<open>ExtractComponent\<close> returns the empty pointer and the cell stays empty.
  The swap is one step under the lock, so concurrent callers are served in some order:
  in any sequence of calls without \<^verbatim>\<open>SetComponent\<close> at most one extraction is non-empty,
  and of \<open>n + 1\<close> extractions in a row the first receives \<open>x\<close> and the other \<open>n\<close> nothing.
  The same for threads: of any number of threads that enter calls other than
  \<^verbatim>\<open>SetComponent\<close>, however their steps interleave, at most one comes back from
  \<^verbatim>\<open>ExtractComponent\<close> with a component.
\<close>

theorem ExtractComponent_once:
  assumes "m_component s = Some x" and "\<forall>c \<in> set ops. \<not> is_SetComponent c"
  shows "fst (ExtractComponent s) = Some x \<and>
         m_component (snd (ExtractComponent s)) = None \<and>
         (\<forall>r \<in> set (fst (run ops (snd (ExtractComponent s)))). \<not> is_nonempty r) \<and>
         m_component (snd (run ops (snd (ExtractComponent s)))) = None \<and>
         length (filter is_nonempty (fst (run ops s))) \<le> 1 \<and>
         fst (run (replicate (Suc n) OpExtractComponent) s) =
           Owned (Some x) # replicate n (Owned None) \<and>
         ((\<forall>t \<in> set ts. entry t \<and> \<not> installs t) \<longrightarrow>
            sum_list (map got (fst (interleave turns (ts, s)))) \<le> 1)"
proof -
  have e: "m_component (snd (ExtractComponent s)) = None"
    by (simp add: ExtractComponent_def)
  have conc: "(\<forall>t \<in> set ts. entry t \<and> \<not> installs t) \<longrightarrow>
            sum_list (map got (fst (interleave turns (ts, s)))) \<le> 1"
    using concurrent_extract_once[of ts turns s] by blast
  have "filter is_nonempty (fst (run ops (snd (ExtractComponent s)))) = []"
    using run_no_set_empty[OF assms(2) e] by simp
  then have "\<forall>r \<in> set (fst (run ops (snd (ExtractComponent s)))). \<not> is_nonempty r"
    by (simp add: filter_empty_conv)
  moreover have "fst (run (replicate (Suc n) OpExtractComponent) s) =
      Owned (Some x) # replicate n (Owned None)"
    using assms(1) run_replicate_extract[of "s\<lparr>m_component := None\<rparr>" n]
    by (simp add: ExtractComponent_def)
  ultimately show ?thesis
    using assms(1) e run_no_set_empty[OF assms(2) e] run_no_set_once[OF assms(2)] conc
    by (simp add: ExtractComponent_def)
qed

theorem ExtractComponent_once_witness:
  "m_component (snd (SetComponent (Some (quiet_component 1)) (new_ComponentInfo ''db''))) =
     Some (quiet_component 1) \<and>
   \<not> is_SetComponent (OpSetStageSwitchingCancelled True) \<and> \<not> is_SetComponent OpExtractComponent \<and>
   fst (ExtractComponent (snd (SetComponent (Some (quiet_component 1)) (new_ComponentInfo ''db'')))) =
     Some (quiet_component 1) \<and>
   fst (run (replicate (Suc 2) OpExtractComponent)
          (snd (SetComponent (Some (quiet_component 1)) (new_ComponentInfo ''db'')))) =
     [Owned (Some (quiet_component 1)), Owned None, Owned None] \<and>
   entry AtExtractComponent \<and> \<not> installs AtExtractComponent \<and>
   sum_list (map got (fst (interleave [1, 0, 2]
     ([AtExtractComponent, AtExtractComponent, AtExtractComponent],
      snd (SetComponent (Some (quiet_component 1)) (new_ComponentInfo ''db'')))))) \<le> 1"
proof -
  let ?s = "snd (SetComponent (Some (quiet_component 1)) (new_ComponentInfo ''db''))"
  have h1: "m_component ?s = Some (quiet_component 1)"
    by (simp add: m_component_SetComponent)
  have h2: "\<forall>c \<in> set [OpSetStageSwitchingCancelled True, OpExtractComponent]. \<not> is_SetComponent c"
    by simp
  have "replicate 2 (Owned None) = [Owned None, Owned None]"
    by (simp add: numeral_2_eq_2)
  then show ?thesis
    using h1 h2
      ExtractComponent_once[OF h1 h2, where n = 2 and turns = "[1, 0, 2]"
        and ts = "[AtExtractComponent, AtExtractComponent, AtExtractComponent]"]
    by simp
qed

section \<open>Refilling the cell\<close>

text \<open>
  C6, as the code has it. The slot is a single owning pointer, so it never holds more
  than one component. After an extraction it is empty, and it stays empty under every
  sequence of calls that contains no \<^verbatim>\<open>SetComponent\<close>. \<^verbatim>\<open>SetComponent\<close> itself does not look at
  the history of the cell: called after an extraction it installs its argument.
\<close>

theorem held_slot_after_extract:
  "((\<forall>c \<in> set ops. \<not> is_SetComponent c) \<longrightarrow>
      m_component (snd (run ops (snd (ExtractComponent s)))) = None) \<and>
   m_component (snd (SetComponent (Some y) (snd (ExtractComponent s)))) = Some y"
proof -
  have e: "m_component (snd (ExtractComponent s)) = None"
    by (simp add: ExtractComponent_def)
  show ?thesis
    using run_no_set_empty[of ops "snd (ExtractComponent s)"] e
    by (simp add: m_component_SetComponent)
qed

theorem held_slot_after_extract_witness:
  "\<not> is_SetComponent (OpSetStage Running) \<and> \<not> is_SetComponent OpOnLoadingCancelled \<and>
   m_component (snd (run [OpSetStage Running, OpOnLoadingCancelled]
     (snd (ExtractComponent (snd (SetComponent (Some (quiet_component 1))
        (new_ComponentInfo ''db''))))))) = None"
  using held_slot_after_extract[of "[OpSetStage Running, OpOnLoadingCancelled]"
      "snd (SetComponent (Some (quiet_component 1)) (new_ComponentInfo ''db''))"]
  by simp

text \<open>
  The claim as the specification words it fails: install a component, extract it (a
  non-empty extraction), install a second one; the cell holds the second.
\<close>

theorem refill_counterexample:
  "fst (run [OpSetComponent (Some (quiet_component 1)), OpExtractComponent,
             OpSetComponent (Some (quiet_component 2))] (new_ComponentInfo ''db'')) =
     [Done, Owned (Some (quiet_component 1)), Done] \<and>
   m_component (snd (run [OpSetComponent (Some (quiet_component 1)), OpExtractComponent,
             OpSetComponent (Some (quiet_component 2))] (new_ComponentInfo ''db''))) =
     Some (quiet_component 2)"
  by (simp add: new_ComponentInfo_def SetComponent_def ExtractComponent_def emit_def finished_def)

section \<open>The cancellation flag\<close>

lemma cancelled_call:
  "m_stage_switching_cancelled (snd (call c s)) =
     (case c of OpSetStageSwitchingCancelled b \<Rightarrow> b | _ \<Rightarrow> m_stage_switching_cancelled s)"
  by (cases c)
     (auto simp: finished_def SetComponent_def OnLoadingCancelled_def OnAllComponentsLoaded_def
        OnAllComponentsAreStopping_def ClearComponent_def HasComponent_def emit_def Let_def
        AddItDependsOn_def AddDependsOnIt_def SetStageSwitchingCancelled_def SetStage_def
        ExtractComponent_def
        split: prod.splits sum.splits option.splits hook_behaviour.splits thrown.splits)

text \<open>
  C7, as the code has it. \<^verbatim>\<open>SetStageSwitchingCancelled\<close> takes the new value of the flag
  as its argument and stores it, true or false; no other call writes the flag. So the
  flag is whatever the last \<^verbatim>\<open>SetStageSwitchingCancelled\<close> said, and once true it stays
  true along every sequence of calls in which \<^verbatim>\<open>SetStageSwitchingCancelled(false)\<close> does
  not occur.
\<close>

theorem cancelled_flag_follows_last_call:
  "m_stage_switching_cancelled (SetStageSwitchingCancelled b s) = b \<and>
   ((\<forall>b. c \<noteq> OpSetStageSwitchingCancelled b) \<longrightarrow>
      m_stage_switching_cancelled (snd (call c s)) = m_stage_switching_cancelled s) \<and>
   (OpSetStageSwitchingCancelled False \<notin> set ops \<longrightarrow> m_stage_switching_cancelled s \<longrightarrow>
      m_stage_switching_cancelled (snd (run ops s)))"
proof -
  have a: "m_stage_switching_cancelled (SetStageSwitchingCancelled b s) = b"
    by (simp add: SetStageSwitchingCancelled_def emit_def)
  have b: "(\<forall>b. c \<noteq> OpSetStageSwitchingCancelled b) \<longrightarrow>
      m_stage_switching_cancelled (snd (call c s)) = m_stage_switching_cancelled s"
    unfolding cancelled_call by (cases c) auto
  have c: "OpSetStageSwitchingCancelled False \<notin> set ops \<Longrightarrow> m_stage_switching_cancelled s \<Longrightarrow>
      m_stage_switching_cancelled (snd (run ops s))"
  proof (induction ops arbitrary: s)
    case Nil
    then show ?case by simp
  next
    case (Cons d ds)
    have "m_stage_switching_cancelled (snd (call d s))"
      using Cons.prems unfolding cancelled_call by (cases d) auto
    then show ?case using Cons.IH[of "snd (call d s)"] Cons.prems
      by (simp only: snd_run_Cons) simp
  qed
  show ?thesis using a b c by blast
qed

theorem cancelled_flag_follows_last_call_witness:
  "(\<forall>b. OpExtractComponent \<noteq> OpSetStageSwitchingCancelled b) \<and>
   OpSetStageSwitchingCancelled False \<notin>
     set [OpSetComponent (Some (quiet_component 1)), OpSetStageSwitchingCancelled True,
          OpExtractComponent] \<and>
   m_stage_switching_cancelled (SetStageSwitchingCancelled True (new_ComponentInfo ''db'')) \<and>
   m_stage_switching_cancelled
     (snd (run [OpSetComponent (Some (quiet_component 1)), OpSetStageSwitchingCancelled True,
                OpExtractComponent]
            (SetStageSwitchingCancelled True (new_ComponentInfo ''db''))))"
  using cancelled_flag_follows_last_call[of True "new_ComponentInfo ''db''" OpExtractComponent
      "[OpSetComponent (Some (quiet_component 1)), OpSetStageSwitchingCancelled True,
        OpExtractComponent]"]
    cancelled_flag_follows_last_call[of True
      "SetStageSwitchingCancelled True (new_ComponentInfo ''db'')" OpExtractComponent
      "[OpSetComponent (Some (quiet_component 1)), OpSetStageSwitchingCancelled True,
        OpExtractComponent]"]
  by simp

text \<open>
  The claim as the specification words it fails: request cancellation, then call
  \<^verbatim>\<open>SetStageSwitchingCancelled(false)\<close>; the flag is false again.
\<close>

theorem cancelled_flag_reset_counterexample:
  "m_stage_switching_cancelled
     (snd (run [OpSetStageSwitchingCancelled True] (new_ComponentInfo ''db''))) \<and>
   \<not> m_stage_switching_cancelled
       (snd (run [OpSetStageSwitchingCancelled True, OpSetStageSwitchingCancelled False]
          (new_ComponentInfo ''db'')))"
  by (simp add: new_ComponentInfo_def SetStageSwitchingCancelled_def emit_def)

section \<open>The stage is what the caller asked for\<close>

lemma stage_call:
  "m_stage (snd (call c s)) = (case requested c of None \<Rightarrow> m_stage s | Some b \<Rightarrow> b)"
  by (cases c)
     (auto simp: finished_def SetComponent_def OnLoadingCancelled_def OnAllComponentsLoaded_def
        OnAllComponentsAreStopping_def ClearComponent_def HasComponent_def emit_def Let_def
        AddItDependsOn_def AddDependsOnIt_def SetStageSwitchingCancelled_def SetStage_def
        ExtractComponent_def
        split: prod.splits sum.splits option.splits hook_behaviour.splits thrown.splits)

lemma forward_refl: "forward a a"
  by (simp add: forward_def)

lemma forward_only_iff_requests:
  "forward_only (m_stage s) (stages_seen ops s) = requests_forward (m_stage s) ops"
proof (induction ops arbitrary: s)
  case Nil
  then show ?case by simp
next
  case (Cons c cs)
  show ?case
  proof (cases "requested c")
    case None
    then have "m_stage (snd (call c s)) = m_stage s"
      by (simp add: stage_call)
    then show ?thesis using Cons.IH[of "snd (call c s)"] None
      by (simp add: GetStage_def forward_refl)
  next
    case (Some b)
    then have "m_stage (snd (call c s)) = b"
      by (simp add: stage_call)
    then show ?thesis using Cons.IH[of "snd (call c s)"] Some
      by (simp add: GetStage_def)
  qed
qed

text \<open>
  C8, as the code has it. \<^verbatim>\<open>SetStage(stage)\<close> stores its argument and \<^verbatim>\<open>SetComponent\<close> stores
  \<^verbatim>\<open>kCreated\<close>, whatever the stage was before; a call that asks for no stage leaves it
  alone. The cell enforces no order: the stages observed along a sequence of calls move
  forward one stage at a time exactly when the stages the caller asks for do.
\<close>

theorem stage_is_what_was_requested:
  "GetStage (SetStage st s) = st \<and>
   GetStage (snd (SetComponent c s)) = kCreated \<and>
   (requested d = None \<longrightarrow> GetStage (snd (call d s)) = GetStage s) \<and>
   forward_only (GetStage s) (stages_seen ops s) = requests_forward (GetStage s) ops"
  using stage_call[of "OpSetStage st" s] stage_call[of "OpSetComponent c" s] stage_call[of d s]
    forward_only_iff_requests[of s ops]
  by (auto simp: GetStage_def finished_def split: prod.splits sum.splits)

theorem stage_is_what_was_requested_witness:
  "requested OpExtractComponent = None \<and>
   GetStage (snd (call OpExtractComponent (new_ComponentInfo ''db''))) = Unborn \<and>
   requests_forward Unborn
     [OpSetComponent (Some (quiet_component 1)), OpGetStage, OpSetStage Running] \<and>
   forward_only Unborn
     (stages_seen [OpSetComponent (Some (quiet_component 1)), OpGetStage, OpSetStage Running]
        (new_ComponentInfo ''db''))"
  using stage_is_what_was_requested[of Running "new_ComponentInfo ''db''" None OpExtractComponent
     "[OpSetComponent (Some (quiet_component 1)), OpGetStage, OpSetStage Running]"]
  by (simp add: forward_def GetStage_def new_ComponentInfo_def)

text \<open>
  The claim as the specification words it fails. A cell that is Running goes back to
  \<^verbatim>\<open>kCreated\<close> when \<^verbatim>\<open>SetComponent\<close> is called on it; and \<^verbatim>\<open>SetStage\<close> takes a new cell from
  the first stage to the last, skipping three, and back to the first.
\<close>

theorem stage_backward_counterexample:
  "stages_seen [OpSetComponent (Some (quiet_component 1)), OpSetStage Running,
                OpSetComponent (Some (quiet_component 2))]
     (new_ComponentInfo ''db'') = [kCreated, Running, kCreated] \<and>
   stage_rank kCreated < stage_rank Running \<and>
   \<not> forward_only Unborn
       (stages_seen [OpSetComponent (Some (quiet_component 1)), OpSetStage Running,
                     OpSetComponent (Some (quiet_component 2))] (new_ComponentInfo ''db'')) \<and>
   stages_seen [OpSetStage TornDown, OpSetStage Unborn] (new_ComponentInfo ''db'') =
     [TornDown, Unborn] \<and>
   \<not> forward Unborn TornDown \<and> \<not> forward TornDown Unborn"
  by (simp add: new_ComponentInfo_def SetComponent_def SetStage_def emit_def finished_def
      GetStage_def forward_def)

section \<open>Waiting for the component\<close>

lemma cv_Wait_now: "predicate s \<Longrightarrow> cv_Wait predicate ws s = Some (True, s)"
  by (cases ws) simp_all

lemma cv_Wait_ok: "cv_Wait predicate ws s = Some (ok, s') \<Longrightarrow> ok = predicate s'"
  by (induction predicate ws s rule: cv_Wait.induct) (auto split: if_splits wakeup.splits)

text \<open>
  C1, as the code has it. After the wait \<^verbatim>\<open>WaitAndGetComponent\<close> tests the cancellation flag
  itself, not the reason of the wake-up. On a cell whose flag is set it throws
  \<^verbatim>\<open>ComponentsLoadCancelledException\<close> at once, whether a component is held or not. On a
  cell that holds a component and whose flag is not set it returns that component at
  once. In general, with \<open>s'\<close> the cell at the wake-up that ends the wait, it throws when
  the flag of \<open>s'\<close> is set or \<open>s'\<close> is empty (the wait was interrupted), and returns the
  component of \<open>s'\<close> otherwise.
\<close>

theorem WaitAndGetComponent_outcome:
  "(m_stage_switching_cancelled s \<longrightarrow>
      WaitAndGetComponent ws s = Throws ComponentsLoadCancelledException) \<and>
   (\<not> m_stage_switching_cancelled s \<and> m_component s = Some x \<longrightarrow>
      WaitAndGetComponent ws s = Returns (Some x)) \<and>
   (\<forall>ok s'. cv_Wait (\<lambda>c. m_stage_switching_cancelled c \<or> m_component c \<noteq> None) ws s =
              Some (ok, s') \<longrightarrow>
      WaitAndGetComponent ws s =
        (if m_stage_switching_cancelled s' \<or> m_component s' = None
         then Throws ComponentsLoadCancelledException else Returns (m_component s')))"
proof -
  let ?p = "\<lambda>c. m_stage_switching_cancelled c \<or> m_component c \<noteq> None"
  have a: "m_stage_switching_cancelled s \<longrightarrow>
      WaitAndGetComponent ws s = Throws ComponentsLoadCancelledException"
    by (simp add: WaitAndGetComponent_def cv_Wait_now)
  have b: "\<not> m_stage_switching_cancelled s \<and> m_component s = Some x \<longrightarrow>
      WaitAndGetComponent ws s = Returns (Some x)"
    by (simp add: WaitAndGetComponent_def cv_Wait_now)
  have c: "WaitAndGetComponent ws s =
        (if m_stage_switching_cancelled s' \<or> m_component s' = None
         then Throws ComponentsLoadCancelledException else Returns (m_component s'))"
    if w: "cv_Wait ?p ws s = Some (ok, s')" for ok s'
  proof -
    have "ok = ?p s'" using cv_Wait_ok[OF w] .
    then show ?thesis using w by (auto simp: WaitAndGetComponent_def)
  qed
  show ?thesis using a b c by blast
qed

theorem WaitAndGetComponent_outcome_witness:
  "m_stage_switching_cancelled (SetStageSwitchingCancelled True (new_ComponentInfo ''db'')) \<and>
   WaitAndGetComponent [] (SetStageSwitchingCancelled True (new_ComponentInfo ''db'')) =
     Throws ComponentsLoadCancelledException \<and>
   \<not> m_stage_switching_cancelled
       (snd (SetComponent (Some (quiet_component 1)) (new_ComponentInfo ''db''))) \<and>
   m_component (snd (SetComponent (Some (quiet_component 1)) (new_ComponentInfo ''db''))) =
     Some (quiet_component 1) \<and>
   WaitAndGetComponent [] (snd (SetComponent (Some (quiet_component 1)) (new_ComponentInfo ''db''))) =
     Returns (Some (quiet_component 1))"
  using WaitAndGetComponent_outcome[of "SetStageSwitchingCancelled True (new_ComponentInfo ''db'')"
      "[]" "quiet_component 1"]
    WaitAndGetComponent_outcome[of
      "snd (SetComponent (Some (quiet_component 1)) (new_ComponentInfo ''db''))"
      "[]" "quiet_component 1"]
  by (simp add: SetStageSwitchingCancelled_def SetComponent_def new_ComponentInfo_def emit_def)

text \<open>
  The claim as the specification words it fails: a component is installed, then
  cancellation is requested; the cell holds the component, and the call throws.
\<close>

theorem WaitAndGetComponent_hidden_counterexample:
  "m_component (SetStageSwitchingCancelled True
      (snd (SetComponent (Some (quiet_component 1)) (new_ComponentInfo ''db'')))) =
     Some (quiet_component 1) \<and>
   WaitAndGetComponent [] (SetStageSwitchingCancelled True
      (snd (SetComponent (Some (quiet_component 1)) (new_ComponentInfo ''db'')))) =
     Throws ComponentsLoadCancelledException"
  by (simp add: WaitAndGetComponent_def SetStageSwitchingCancelled_def SetComponent_def
      new_ComponentInfo_def emit_def)

section \<open>Waiting for a stage\<close>

text \<open>
  \<^verbatim>\<open>WaitStage\<close> throws when \<^verbatim>\<open>!ok && stage_switching_cancelled_\<close>. The wait returns false only
  with its predicate false, and then the flag is not set: the two never hold together.
\<close>

lemma WaitStage_never_throws: "WaitStage stage method_name ws s \<noteq> Throws e"
proof (cases "cv_Wait (\<lambda>c. m_stage_switching_cancelled c \<or> m_stage c = stage) ws s")
  case None
  then show ?thesis by (simp add: WaitStage_def)
next
  case (Some r)
  obtain ok s' where r: "r = (ok, s')" by (cases r)
  have "ok = (m_stage_switching_cancelled s' \<or> m_stage s' = stage)"
    using cv_Wait_ok[of _ ws s ok s'] Some r by simp
  then show ?thesis using Some r by (auto simp: WaitStage_def)
qed

lemma WaitStage_reached: "m_stage s = stage \<Longrightarrow> WaitStage stage method_name ws s = Returns ()"
  by (simp add: WaitStage_def cv_Wait_now)

text \<open>
  C2. The claim: \<^verbatim>\<open>WaitStage\<close> returns when the stage is the target, and returns the
  cancellation error, with the caller's operation name, when cancellation wakes it before
  the target is reached. The code at such an input: the cell is unborn, the target is
  Running, and cancellation is requested, either while the caller sleeps or before the
  call. Both times \<^verbatim>\<open>WaitStage\<close> returns normally.
\<close>

theorem WaitStage_cancelled_returns:
  "m_stage_switching_cancelled (SetStageSwitchingCancelled True (new_ComponentInfo ''db'')) \<and>
   m_stage (SetStageSwitchingCancelled True (new_ComponentInfo ''db'')) \<noteq> Running \<and>
   WaitStage Running ''OnAllComponentsLoaded''
     [Notified (SetStageSwitchingCancelled True (new_ComponentInfo ''db''))]
     (new_ComponentInfo ''db'') = Returns () \<and>
   WaitStage Running ''OnAllComponentsLoaded'' []
     (SetStageSwitchingCancelled True (new_ComponentInfo ''db'')) = Returns ()"
  by (simp add: WaitStage_def SetStageSwitchingCancelled_def new_ComponentInfo_def emit_def)

section \<open>The hook after all components are loaded\<close>

text \<open>
  C9, as the code has it. On a cell that holds a component, \<^verbatim>\<open>OnAllComponentsLoaded\<close> returns
  normally when the hook returns. When the hook throws an exception derived from
  \<^verbatim>\<open>std::exception\<close>, the call throws a \<^verbatim>\<open>std::runtime_error\<close> whose text names the component
  and carries the hook's text. The handler catches \<^verbatim>\<open>std::exception\<close> only: an object of
  another type leaves the call as it was thrown, without the name. In no case is the
  failure absorbed.
\<close>

theorem OnAllComponentsLoaded_failure:
  assumes "m_component s = Some c"
  shows "(hookOnAllComponentsLoaded c = HookReturns \<longrightarrow> fst (OnAllComponentsLoaded s) = Inr ()) \<and>
         (\<forall>what. hookOnAllComponentsLoaded c = HookThrows (StdException what) \<longrightarrow>
            fst (OnAllComponentsLoaded s) =
              Inl (RuntimeError (''OnAllComponentsLoaded() failed for component '' @ m_name s @
                                 '': '' @ what))) \<and>
         (hookOnAllComponentsLoaded c = HookThrows NonStdThrown \<longrightarrow>
            fst (OnAllComponentsLoaded s) = Inl (Propagated NonStdThrown)) \<and>
         (hookOnAllComponentsLoaded c \<noteq> HookReturns \<longrightarrow> isl (fst (OnAllComponentsLoaded s)))"
  using assms
  by (auto simp: OnAllComponentsLoaded_def HasComponent_def Let_def
      split: hook_behaviour.splits thrown.splits)

theorem OnAllComponentsLoaded_failure_witness:
  "m_component (snd (SetComponent
      (Some ((quiet_component 1)\<lparr>hookOnAllComponentsLoaded := HookThrows (StdException ''boom'')\<rparr>))
      (new_ComponentInfo ''db''))) =
     Some ((quiet_component 1)\<lparr>hookOnAllComponentsLoaded := HookThrows (StdException ''boom'')\<rparr>) \<and>
   fst (OnAllComponentsLoaded (snd (SetComponent
      (Some ((quiet_component 1)\<lparr>hookOnAllComponentsLoaded := HookThrows (StdException ''boom'')\<rparr>))
      (new_ComponentInfo ''db'')))) =
     Inl (RuntimeError ''OnAllComponentsLoaded() failed for component db: boom'')"
proof -
  let ?c = "(quiet_component 1)\<lparr>hookOnAllComponentsLoaded := HookThrows (StdException ''boom'')\<rparr>"
  let ?s = "snd (SetComponent (Some ?c) (new_ComponentInfo ''db''))"
  have h: "m_component ?s = Some ?c"
    by (simp add: m_component_SetComponent)
  have n: "m_name ?s = ''db''"
    by (simp add: SetComponent_def new_ComponentInfo_def emit_def)
  show ?thesis
    using h n OnAllComponentsLoaded_failure[OF h] by simp
qed

text \<open>
  The claim as the specification words it fails for a hook that throws an object whose
  type does not derive from \<^verbatim>\<open>std::exception\<close>: the caller receives that object, not an
  error that names the component.
\<close>

theorem OnAllComponentsLoaded_unwrapped_counterexample:
  "fst (OnAllComponentsLoaded (snd (SetComponent
      (Some ((quiet_component 1)\<lparr>hookOnAllComponentsLoaded := HookThrows NonStdThrown\<rparr>))
      (new_ComponentInfo ''db'')))) = Inl (Propagated NonStdThrown)"
  by (simp add: OnAllComponentsLoaded_def HasComponent_def SetComponent_def
      new_ComponentInfo_def emit_def quiet_component_def)

section \<open>The cancellation hook runs at most once\<close>

text \<open>
  One step of one thread: what it adds to the calls made and to the calls pending, it
  has taken from the guard.
\<close>

lemma step_budget:
  "cancellation_calls (snd (step t s)) + pending (fst (step t s)) + guard_bound s \<le>
   cancellation_calls s + pending t + guard_bound (snd (step t s))"
  by (cases t)
     (auto simp: guard_bound_def after_hook_def cancellation_calls_def emit_def
        ExtractComponent_def HasComponent_def Let_def
        split: option.splits hook_behaviour.splits)

lemma interleave_budget:
  "cancellation_calls s + sum_list (map pending ts) \<le> guard_bound s \<Longrightarrow>
   cancellation_calls (snd (interleave turns (ts, s))) +
     sum_list (map pending (fst (interleave turns (ts, s)))) \<le>
   guard_bound (snd (interleave turns (ts, s)))"
proof (induction turns arbitrary: ts s)
  case Nil
  then show ?case by simp
next
  case (Cons i turns)
  show ?case
  proof (cases "i < length ts")
    case False
    then show ?thesis using Cons by simp
  next
    case True
    obtain t' s' where st: "step (ts ! i) s = (t', s')" by (cases "step (ts ! i) s")
    have b: "cancellation_calls s' + pending t' + guard_bound s \<le>
             cancellation_calls s + pending (ts ! i) + guard_bound s'"
      using step_budget[of "ts ! i" s] st by simp
    have u: "sum_list (map pending (ts[i := t'])) + pending (ts ! i) =
             sum_list (map pending ts) + pending t'"
      using sum_update[OF True] .
    have "cancellation_calls s' + sum_list (map pending (ts[i := t'])) \<le> guard_bound s'"
      using b u Cons.prems by linarith
    then show ?thesis using Cons.IH[of s' "ts[i := t']"] True st by simp
  qed
qed

lemma entry_not_pending: "entry t \<Longrightarrow> pending t = 0"
  by (cases t) simp_all

lemma entries_not_pending: "\<forall>t \<in> set ts. entry t \<Longrightarrow> sum_list (map pending ts) = 0"
  by (induction ts) (simp_all add: entry_not_pending)

lemma interleave_at_most_once:
  assumes "\<forall>t \<in> set ts. entry t"
  shows "cancellation_calls (snd (interleave turns (ts, new_ComponentInfo name))) \<le> 1"
proof -
  have z: "sum_list (map pending ts) = 0"
    by (rule entries_not_pending[OF assms])
  have c0: "cancellation_calls (new_ComponentInfo name) = 0"
    by (simp add: cancellation_calls_def new_ComponentInfo_def)
  have "cancellation_calls (new_ComponentInfo name) + sum_list (map pending ts) \<le>
        guard_bound (new_ComponentInfo name)"
    unfolding z c0 by simp
  from interleave_budget[OF this, of turns]
  have "cancellation_calls (snd (interleave turns (ts, new_ComponentInfo name))) \<le>
        guard_bound (snd (interleave turns (ts, new_ComponentInfo name)))"
    by simp
  also have "\<dots> \<le> 1" by (simp add: guard_bound_def)
  finally show ?thesis .
qed

text \<open>
  A thread that is left alone takes the cell where the member function as a whole
  takes it: the calls of the sequences above are the uninterrupted runs of the steps.
\<close>

lemma alone_OnLoadingCancelled:
  "snd (interleave [0, 0, 0] ([AtHasComponent False], s)) = snd (OnLoadingCancelled s)"
  by (auto simp: OnLoadingCancelled_def HasComponent_def after_hook_def Let_def
      split: option.splits hook_behaviour.splits)


text \<open>Along whole calls the guard counts the calls of the hook exactly.\<close>

lemma call_guard_exact:
  "cancellation_calls s = guard_bound s \<Longrightarrow>
   cancellation_calls (snd (call c s)) = guard_bound (snd (call c s))"
  by (cases c)
     (auto simp: cancellation_calls_def guard_bound_def
        finished_def SetComponent_def OnLoadingCancelled_def OnAllComponentsLoaded_def
        OnAllComponentsAreStopping_def ClearComponent_def HasComponent_def emit_def Let_def
        AddItDependsOn_def AddDependsOnIt_def SetStageSwitchingCancelled_def SetStage_def
        ExtractComponent_def
        split: prod.splits sum.splits option.splits hook_behaviour.splits thrown.splits if_splits)

lemma run_guard_exact:
  "cancellation_calls s = guard_bound s \<Longrightarrow>
   cancellation_calls (snd (run ops s)) = guard_bound (snd (run ops s))"
proof (induction ops arbitrary: s)
  case Nil
  then show ?case by simp
next
  case (Cons c cs)
  then show ?case
    using call_guard_exact[of s c] by (simp only: snd_run_Cons)
qed

lemma new_guard_exact:
  "cancellation_calls (new_ComponentInfo name) = guard_bound (new_ComponentInfo name)"
  by (simp add: cancellation_calls_def guard_bound_def new_ComponentInfo_def)

lemma OnLoadingCancelled_twice:
  assumes "m_component s = Some c"
  shows "events (snd (OnLoadingCancelled (snd (OnLoadingCancelled s)))) =
           events s @ (if m_on_loading_cancelled_called s then [] else [CallOnLoadingCancelled c])"
    and "m_on_loading_cancelled_called (snd (OnLoadingCancelled (snd (OnLoadingCancelled s))))"
    and "OnLoadingCancelled (snd (OnLoadingCancelled (snd (OnLoadingCancelled s)))) =
           (Inr (), snd (OnLoadingCancelled (snd (OnLoadingCancelled s))))"
  using assms
  by (auto simp: OnLoadingCancelled_def HasComponent_def emit_def Let_def
      split: hook_behaviour.splits)

text \<open>
  C3, as the code has it. Threads enter \<^verbatim>\<open>SetComponent\<close>, \<^verbatim>\<open>OnLoadingCancelled\<close>,
  \<^verbatim>\<open>SetStageSwitchingCancelled\<close>, \<^verbatim>\<open>SetStage\<close> and \<^verbatim>\<open>ExtractComponent\<close> on a new cell, as many
  and in whatever mix; however their steps interleave, the cancellation hook is called
  at most once in the life of the cell, be it from inside \<^verbatim>\<open>SetComponent\<close> or from a call
  of \<^verbatim>\<open>OnLoadingCancelled\<close>. The same holds along every sequence of whole calls of the
  interface. The guard belongs to the cell, not to the component it holds: two calls
  of \<^verbatim>\<open>OnLoadingCancelled\<close> in a row, with no step of another thread in between, on a cell
  that holds the component \<open>c\<close> call the hook of \<open>c\<close> exactly once when the guard had not
  fired before, and call nothing when it had; either way the guard is set afterwards
  and a further call returns and changes nothing.
\<close>

theorem cancellation_hook_at_most_once:
  "((\<forall>t \<in> set ts. entry t) \<longrightarrow>
      cancellation_calls (snd (interleave turns (ts, new_ComponentInfo name))) \<le> 1) \<and>
   cancellation_calls (snd (run ops (new_ComponentInfo name))) \<le> 1 \<and>
   (m_component s = Some c \<longrightarrow>
      events (snd (OnLoadingCancelled (snd (OnLoadingCancelled s)))) =
        events s @ (if m_on_loading_cancelled_called s then [] else [CallOnLoadingCancelled c]) \<and>
      m_on_loading_cancelled_called (snd (OnLoadingCancelled (snd (OnLoadingCancelled s)))) \<and>
      OnLoadingCancelled (snd (OnLoadingCancelled (snd (OnLoadingCancelled s)))) =
        (Inr (), snd (OnLoadingCancelled (snd (OnLoadingCancelled s)))))"
proof -
  let ?r = "snd (run ops (new_ComponentInfo name))"
  have inv: "cancellation_calls ?r = guard_bound ?r"
    by (rule run_guard_exact[OF new_guard_exact])
  have a: "(\<forall>t \<in> set ts. entry t) \<longrightarrow>
      cancellation_calls (snd (interleave turns (ts, new_ComponentInfo name))) \<le> 1"
    using interleave_at_most_once by blast
  have b: "cancellation_calls ?r \<le> 1"
    using inv by (simp add: guard_bound_def)
  have d: "m_component s = Some c \<longrightarrow>
      events (snd (OnLoadingCancelled (snd (OnLoadingCancelled s)))) =
        events s @ (if m_on_loading_cancelled_called s then [] else [CallOnLoadingCancelled c]) \<and>
      m_on_loading_cancelled_called (snd (OnLoadingCancelled (snd (OnLoadingCancelled s)))) \<and>
      OnLoadingCancelled (snd (OnLoadingCancelled (snd (OnLoadingCancelled s)))) =
        (Inr (), snd (OnLoadingCancelled (snd (OnLoadingCancelled s))))"
    using OnLoadingCancelled_twice[of s c] by blast
  show ?thesis using a b d by blast
qed

theorem cancellation_hook_at_most_once_witness:
  "entry (AtSetStageSwitchingCancelled True) \<and>
   entry (AtSetComponent (Some (quiet_component 1))) \<and>
   entry (AtHasComponent False) \<and>
   cancellation_calls (snd (interleave [0, 1, 1, 2, 1, 2, 2, 1, 1, 0]
     ([AtSetStageSwitchingCancelled True, AtSetComponent (Some (quiet_component 1)),
       AtHasComponent False], new_ComponentInfo ''db''))) \<le> 1 \<and>
   m_component (snd (SetComponent (Some (quiet_component 1)) (new_ComponentInfo ''db''))) =
     Some (quiet_component 1) \<and>
   events (snd (OnLoadingCancelled (snd (OnLoadingCancelled
     (snd (SetComponent (Some (quiet_component 1)) (new_ComponentInfo ''db''))))))) =
     [NotifyAll, CallOnLoadingCancelled (quiet_component 1)]"
proof -
  let ?s = "snd (SetComponent (Some (quiet_component 1)) (new_ComponentInfo ''db''))"
  have e: "\<forall>t \<in> set [AtSetStageSwitchingCancelled True, AtSetComponent (Some (quiet_component 1)),
       AtHasComponent False]. entry t"
    by simp
  have m: "m_component ?s = Some (quiet_component 1)"
    by (simp add: m_component_SetComponent)
  have g: "\<not> m_on_loading_cancelled_called ?s" "events ?s = [NotifyAll]"
    by (simp_all add: SetComponent_def new_ComponentInfo_def emit_def)
  show ?thesis
    using e m g
      cancellation_hook_at_most_once[of
        "[AtSetStageSwitchingCancelled True, AtSetComponent (Some (quiet_component 1)),
          AtHasComponent False]"
        "[0, 1, 1, 2, 1, 2, 2, 1, 1, 0]" "''db''" "[]" ?s "quiet_component 1"]
    by simp
qed

text \<open>
  The claim as the specification words it fails in its second half: two calls in a row
  on a cell that holds a component need not call that component's hook exactly once.
  First, cancellation is requested before the component is installed: \<^verbatim>\<open>SetComponent\<close> has
  called the hook itself, and the two calls that follow call nothing. Second, a first
  component is installed, cancelled, notified and extracted, and a second one
  installed: the cell holds the second component, and neither its installation nor the
  two calls that follow ever call its hook.
\<close>

theorem cancellation_hook_twice_counterexample:
  "m_component (snd (run [OpSetStageSwitchingCancelled True,
       OpSetComponent (Some (quiet_component 1))] (new_ComponentInfo ''db''))) =
     Some (quiet_component 1) \<and>
   events (snd (run [OpSetStageSwitchingCancelled True,
       OpSetComponent (Some (quiet_component 1))] (new_ComponentInfo ''db''))) =
     [NotifyAll, CallOnLoadingCancelled (quiet_component 1), NotifyAll] \<and>
   events (snd (run [OpSetStageSwitchingCancelled True,
       OpSetComponent (Some (quiet_component 1)), OpOnLoadingCancelled, OpOnLoadingCancelled]
       (new_ComponentInfo ''db''))) =
     [NotifyAll, CallOnLoadingCancelled (quiet_component 1), NotifyAll] \<and>
   m_component (snd (run [OpSetComponent (Some (quiet_component 1)),
       OpSetStageSwitchingCancelled True, OpOnLoadingCancelled, OpExtractComponent,
       OpSetComponent (Some (quiet_component 2)), OpOnLoadingCancelled, OpOnLoadingCancelled]
       (new_ComponentInfo ''db''))) = Some (quiet_component 2) \<and>
   CallOnLoadingCancelled (quiet_component 2) \<notin>
     set (events (snd (run [OpSetComponent (Some (quiet_component 1)),
       OpSetStageSwitchingCancelled True, OpOnLoadingCancelled, OpExtractComponent,
       OpSetComponent (Some (quiet_component 2)), OpOnLoadingCancelled, OpOnLoadingCancelled]
       (new_ComponentInfo ''db''))))"
  by (simp add: new_ComponentInfo_def SetComponent_def SetStageSwitchingCancelled_def
      OnLoadingCancelled_def HasComponent_def ExtractComponent_def emit_def finished_def
      quiet_component_def)

section \<open>Installing a component\<close>













end
